theory Spec2Isabelle
  imports Main "HOL-Library.AList"
begin

section \<open>JavaScript values\<close>

text \<open>
  The values that travel through the state machine: action payloads, snapshots, event
  payloads. An object is its list of own properties in insertion order. Numbers are
  integers here; functions are not values of this type (reducers and validators are
  modelled separately, as HOL functions).
\<close>

datatype jsval =
    JUndefined
  | JNull
  | JBool bool
  | JNum int
  | JStr string
  | JArr "jsval list"
  | JObj "(string \<times> jsval) list"

text \<open>A state snapshot is a plain object: its own properties, in insertion order.\<close>

type_synonym snapshot = "(string \<times> jsval) list"

text \<open>What a function of the source can throw.\<close>

datatype exn = TypeError | Thrown jsval

text \<open>JavaScript's truthiness, as \<open>if (!x)\<close> tests it.\<close>

fun truthy :: "jsval \<Rightarrow> bool" where
  "truthy JUndefined = False"
| "truthy JNull = False"
| "truthy (JBool b) = b"
| "truthy (JNum n) = (n \<noteq> 0)"
| "truthy (JStr s) = (s \<noteq> [])"
| "truthy (JArr xs) = True"
| "truthy (JObj ps) = True"

fun is_string :: "jsval \<Rightarrow> bool" where
  "is_string (JStr s) = True"
| "is_string v = False"

text \<open>
  \<open>String.prototype.toUpperCase\<close> on the ASCII letters; every other character is
  left as it is.
\<close>

definition upper_char :: "char \<Rightarrow> char" where
  "upper_char c =
     (let n = (of_char c :: nat) in if 97 \<le> n \<and> n \<le> 122 then char_of (n - 32) else c)"

definition toUpperCase :: "string \<Rightarrow> string" where
  "toUpperCase s = map upper_char s"

text \<open>\<open>o[k]\<close> on a plain object: the own property, or \<open>undefined\<close>.\<close>

definition get_prop :: "(string \<times> jsval) list \<Rightarrow> string \<Rightarrow> jsval" where
  "get_prop ps k = (case map_of ps k of None \<Rightarrow> JUndefined | Some v \<Rightarrow> v)"

text \<open>\<open>Object.keys(o)\<close>.\<close>

definition object_keys :: "(string \<times> jsval) list \<Rightarrow> string list" where
  "object_keys ps = map fst ps"

text \<open>
  \<open>Object.assign({}, src)\<close>: every own property of \<open>src\<close> is assigned, in order,
  to a new empty object.
\<close>

definition object_assign :: "(string \<times> jsval) list \<Rightarrow> (string \<times> jsval) list" where
  "object_assign src = fold (\<lambda>(k, v) target. AList.update k v target) src []"

text \<open>
  Parameter destructuring \<open>({ k })\<close> of a handler's argument: it throws on
  \<open>undefined\<close> and \<open>null\<close>, reads the own property of an object, and gives
  \<open>undefined\<close> on any other value (none of the names destructured in the source,
  \<open>action\<close>, \<open>data\<close>, \<open>token\<close>, \<open>event\<close>, is a property of a string, number,
  boolean or array).
\<close>

fun destructure :: "jsval \<Rightarrow> string \<Rightarrow> exn + jsval" where
  "destructure JUndefined k = Inl TypeError"
| "destructure JNull k = Inl TypeError"
| "destructure (JObj ps) k = Inr (get_prop ps k)"
| "destructure v k = Inr JUndefined"

section \<open>The diff engine\<close>

text \<open>
  Modelled from the spec: the package \<open>object-diff\<close> that \<open>callAction\<close> calls is not
  under src/. Section 4.3: for each top-level key present in either snapshot, the key is
  in the result, mapped to its new value, if its value differs by value equality between
  old and new; unchanged keys are omitted; a key removed from the new snapshot is
  reported with \<open>undefined\<close>.
\<close>

definition diff :: "snapshot \<Rightarrow> snapshot \<Rightarrow> snapshot" where
  "diff a b =
     map (\<lambda>k. (k, get_prop b k))
       (filter (\<lambda>k. get_prop a k \<noteq> get_prop b k) (remdups (object_keys a @ object_keys b)))"

section \<open>The state machine (app/state/index.js) and the gateway's view of it\<close>

text \<open>An entry of \<open>actions\<close>: the reducer and the validator, either of which may throw.\<close>

record action =
  reducer :: "snapshot \<Rightarrow> jsval \<Rightarrow> exn + snapshot"
  validate :: "jsval \<Rightarrow> exn + jsval"

text \<open>
  One call of \<open>emitter.emit\<close>: the topic, the payload, and the snapshot that
  \<open>getState()\<close> returns while the emit runs (what a listener called by it can read).
\<close>

record publish =
  topic :: string
  payload :: jsval
  seen :: snapshot

text \<open>
  One call of \<open>socket.emit(event, data)\<close>; the flag says that an acknowledgement
  callback was passed (in the source it is always \<open>() => socket.disconnect()\<close>).
\<close>

datatype out_msg = Emit string jsval bool

text \<open>The timer behind \<open>authTimeoutId\<close>.\<close>

datatype timer = NotSet | Armed | Cleared | Fired

text \<open>
  A socket.io socket as the source uses it: the \<open>authenticated\<close> flag, the timer, one
  \<open>subscriptions\<close> table (event name to listener) for each time the gateway's callback
  ran for it, the calls of \<open>socket.emit\<close> made so far, and whether it was disconnected.
\<close>

record socket =
  authenticated :: bool
  timer :: timer
  sessions :: "(string \<times> nat) list list"
  outbox :: "out_msg list"
  closed :: bool

text \<open>
  A listener that the gateway registered on the emitter: its identity (the closure),
  the socket it relays to, and the event name it was subscribed under.
\<close>

record listener =
  lid :: nat
  owner :: nat
  pattern :: string

text \<open>
  The whole process: the module variables \<open>actions\<close> and \<open>state\<close>, the emitter's
  listeners in registration order and the trace of its emits, the sockets (a socket's id
  is its index), and the default namespace's \<open>sockets\<close> and \<open>connected\<close> tables.
\<close>

record sys =
  actions :: "string \<rightharpoonup> action"
  state :: snapshot
  listeners :: "listener list"
  published :: "publish list"
  sockets :: "socket list"
  nsp_sockets :: "nat list"
  nsp_connected :: "nat list"
  next_lid :: nat

definition init_sys :: "(string \<rightharpoonup> action) \<Rightarrow> snapshot \<Rightarrow> sys" where
  "init_sys acts st =
     \<lparr>actions = acts, state = st, listeners = [], published = [], sockets = [],
      nsp_sockets = [], nsp_connected = [], next_lid = 0\<rparr>"

text \<open>\<open>registerReducer(action, reducer, validate)\<close>: \<open>actions[action] = {...}\<close>.\<close>

definition registerReducer ::
  "string \<Rightarrow> (snapshot \<Rightarrow> jsval \<Rightarrow> exn + snapshot) \<Rightarrow> (jsval \<Rightarrow> exn + jsval) \<Rightarrow> sys \<Rightarrow> sys" where
  "registerReducer a r v s = s\<lparr>actions := (actions s)(a \<mapsto> \<lparr>reducer = r, validate = v\<rparr>)\<rparr>"

text \<open>\<open>getState()\<close>.\<close>

definition getState :: "sys \<Rightarrow> snapshot" where
  "getState s = state s"

text \<open>Updating one socket in place; an id that names no socket changes nothing.\<close>

definition upd_socket :: "nat \<Rightarrow> (socket \<Rightarrow> socket) \<Rightarrow> sys \<Rightarrow> sys" where
  "upd_socket sid f s =
     (if sid < length (sockets s) then s\<lparr>sockets := (sockets s)[sid := f (sockets s ! sid)]\<rparr>
      else s)"

text \<open>\<open>socket.emit(...)\<close> on the socket \<open>sid\<close>.\<close>

definition socket_emit :: "nat \<Rightarrow> out_msg \<Rightarrow> sys \<Rightarrow> sys" where
  "socket_emit sid msg s = upd_socket sid (\<lambda>c. c\<lparr>outbox := outbox c @ [msg]\<rparr>) s"

text \<open>
  The relay the gateway's \<open>subscribe\<close> handler builds: \<open>relayAllEvents\<close> for the
  event \<open>*\<close>, \<open>relaySingleEvent\<close> otherwise.
\<close>

definition relay :: "listener \<Rightarrow> string \<Rightarrow> jsval \<Rightarrow> sys \<Rightarrow> sys" where
  "relay l actualEvent data s =
     (if pattern l = ''*''
      then socket_emit (owner l)
             (Emit ''all-events'' (JObj [(''event'', JStr actualEvent), (''data'', data)]) False) s
      else socket_emit (owner l) (Emit (pattern l) data False) s)"

text \<open>
  \<open>emitter.emit(topic, payload)\<close>. The emit is recorded, then the listeners run
  synchronously: those registered with \<open>onAny\<close> (subscribed under \<open>*\<close>), then those
  registered with \<open>on\<close> whose event name matches the topic. The matching of
  eventemitter2 (wildcards, the delimiter \<open>:\<close>) is the parameter \<open>m\<close>.
\<close>

definition emitter_emit :: "(string \<Rightarrow> string \<Rightarrow> bool) \<Rightarrow> string \<Rightarrow> jsval \<Rightarrow> sys \<Rightarrow> sys" where
  "emitter_emit m t p s =
     fold (\<lambda>l. relay l t p)
       (filter (\<lambda>l. pattern l = ''*'') (listeners s) @
        filter (\<lambda>l. pattern l \<noteq> ''*'' \<and> m (pattern l) t) (listeners s))
       (s\<lparr>published := published s @ [\<lparr>topic = t, payload = p, seen = state s\<rparr>]\<rparr>)"

text \<open>\<open>emitEvent(event, data)\<close>.\<close>

definition emitEvent :: "(string \<Rightarrow> string \<Rightarrow> bool) \<Rightarrow> string \<Rightarrow> jsval \<Rightarrow> sys \<Rightarrow> sys" where
  "emitEvent m event data s = emitter_emit m event data s"

text \<open>
  The second half of \<open>callAction\<close>, from the assignment to \<open>state\<close> on: the snapshot
  is replaced by \<open>Object.assign({}, newState)\<close>, the diff of the old state and the
  reducer's result is taken, and the events are emitted. \<open>actionKey\<close> is the normalised
  name.
\<close>

definition commit_and_publish ::
  "(string \<Rightarrow> string \<Rightarrow> bool) \<Rightarrow> string \<Rightarrow> jsval \<Rightarrow> snapshot \<Rightarrow> sys \<Rightarrow> sys" where
  "commit_and_publish m actionKey data newState s =
     (let oldState = state s;
          s1 = s\<lparr>state := object_assign newState\<rparr>;
          stateDiff = diff oldState newState;
          s2 = fold (\<lambda>changedKey. emitter_emit m (''update:'' @ changedKey)
                      (JObj [(''state'', JObj stateDiff)]))
                 (object_keys stateDiff) s1;
          s3 = emitter_emit m ''update''
                 (JObj [(''state'', JObj stateDiff), (''action'', JStr actionKey),
                        (''diff'', JArr (map JStr (object_keys stateDiff)))]) s2
      in emitter_emit m (''action:'' @ actionKey)
           (JObj [(''state'', JObj newState), (''action'', JStr actionKey),
                  (''actionData'', data),
                  (''diff'', JArr (map JStr (object_keys stateDiff)))]) s3)"

text \<open>
  The lookup of \<open>callAction\<close>: the name is upper-cased, then looked up in \<open>actions\<close>.
  (\<open>in\<close> also sees the properties inherited from \<open>Object.prototype\<close>; each of their
  names has a lower-case letter, so none is an upper-cased name.)
\<close>

definition lookup_action :: "sys \<Rightarrow> string \<Rightarrow> action option" where
  "lookup_action s actionKey = actions s (toUpperCase actionKey)"

text \<open>
  \<open>callAction(actionKey, data)\<close>. \<open>actionKey.toUpperCase()\<close> throws a TypeError
  unless \<open>actionKey\<close> is a string. An exception of the validator or the reducer
  leaves the function at that point.
\<close>

definition callAction :: "(string \<Rightarrow> string \<Rightarrow> bool) \<Rightarrow> jsval \<Rightarrow> jsval \<Rightarrow> sys \<Rightarrow> exn + sys" where
  "callAction m actionKey data s =
     (case actionKey of
        JStr k \<Rightarrow>
          (case lookup_action s k of
             None \<Rightarrow> Inr s
           | Some action \<Rightarrow>
               (case validate action data of
                  Inl e \<Rightarrow> Inl e
                | Inr ok \<Rightarrow>
                    if \<not> truthy ok then Inr s
                    else (case reducer action (state s) data of
                            Inl e \<Rightarrow> Inl e
                          | Inr newState \<Rightarrow>
                              Inr (commit_and_publish m (toUpperCase k) data newState s))))
      | _ \<Rightarrow> Inl TypeError)"

section \<open>Subscriptions (subscribe in app/state/index.js)\<close>

text \<open>
  \<open>subscribe(event, callback)\<close> for a relay of the socket \<open>sid\<close>: the callback is
  appended to the emitter's listeners (\<open>onAny\<close> for \<open>*\<close>, \<open>on\<close> otherwise; the two
  are told apart by the pattern). The closure returned is named by the listener's id.
\<close>

definition subscribe :: "nat \<Rightarrow> string \<Rightarrow> sys \<Rightarrow> sys" where
  "subscribe sid event s =
     s\<lparr>listeners := listeners s @ [\<lparr>lid = next_lid s, owner = sid, pattern = event\<rparr>],
       next_lid := Suc (next_lid s)\<rparr>"

text \<open>The closure \<open>subscribe\<close> returned: it removes that one callback.\<close>

definition unsubscribe :: "nat \<Rightarrow> sys \<Rightarrow> sys" where
  "unsubscribe l s = s\<lparr>listeners := filter (\<lambda>x. lid x \<noteq> l) (listeners s)\<rparr>"

section \<open>The gateway (the socket module)\<close>

text \<open>
  The callback that the socket module passes to \<open>socketAuth\<close>, run for the socket
  \<open>sid\<close>: a new empty \<open>subscriptions\<close> table, the \<open>initial-state\<close> event with
  \<open>getState()\<close>, and the handlers below, bound to that table (its index \<open>i\<close>).
\<close>

definition gateway_client :: "nat \<Rightarrow> sys \<Rightarrow> sys" where
  "gateway_client sid s =
     socket_emit sid (Emit ''initial-state'' (JObj [(''state'', JObj (getState s))]) False)
       (upd_socket sid (\<lambda>c. c\<lparr>sessions := sessions c @ [[]]\<rparr>) s)"

text \<open>\<open>client.on('action', ({ action, data }) => state.callAction(action, data))\<close>.\<close>

definition handle_action :: "(string \<Rightarrow> string \<Rightarrow> bool) \<Rightarrow> jsval \<Rightarrow> sys \<Rightarrow> exn + sys" where
  "handle_action m msg s =
     (case destructure msg ''action'' of
        Inl e \<Rightarrow> Inl e
      | Inr action \<Rightarrow>
          (case destructure msg ''data'' of
             Inl e \<Rightarrow> Inl e
           | Inr data \<Rightarrow> callAction m action data s))"

text \<open>
  \<open>client.on('subscribe', ({ event }) => ...)\<close> for the table \<open>i\<close> of the socket
  \<open>sid\<close>. The message carries a string as its event name.
\<close>

definition handle_subscribe :: "nat \<Rightarrow> nat \<Rightarrow> string \<Rightarrow> sys \<Rightarrow> sys" where
  "handle_subscribe sid i event s =
     (let subscriptions = sessions (sockets s ! sid) ! i in
      if event \<in> set (map fst subscriptions) then s
      else upd_socket sid
             (\<lambda>c. c\<lparr>sessions := (sessions c)[i := sessions c ! i @ [(event, next_lid s)]]\<rparr>)
             (subscribe sid event s))"

text \<open>\<open>client.on('unsubscribe', ({ event }) => ...)\<close>.\<close>

definition handle_unsubscribe :: "nat \<Rightarrow> nat \<Rightarrow> string \<Rightarrow> sys \<Rightarrow> sys" where
  "handle_unsubscribe sid i event s =
     (let subscriptions = sessions (sockets s ! sid) ! i in
      case map_of subscriptions event of
        None \<Rightarrow> s
      | Some l \<Rightarrow>
          upd_socket sid
            (\<lambda>c. c\<lparr>sessions := (sessions c)[i := filter (\<lambda>p. fst p \<noteq> event) (sessions c ! i)]\<rparr>)
            (unsubscribe l s))"

text \<open>
  \<open>client.on('disconnect', ...)\<close>: every stored closure is called and the table is
  dropped (the source sets it to \<open>null\<close>; no handler runs on the socket afterwards).
\<close>

definition handle_disconnect :: "nat \<Rightarrow> nat \<Rightarrow> sys \<Rightarrow> sys" where
  "handle_disconnect sid i s =
     (let subscriptions = sessions (sockets s ! sid) ! i in
      upd_socket sid (\<lambda>c. c\<lparr>sessions := (sessions c)[i := []]\<rparr>)
        (fold unsubscribe (map snd subscriptions) s))"

text \<open>
  A handler that was registered \<open>n\<close> times runs \<open>n\<close> times; an exception ends the
  run.
\<close>

fun repeat_handler :: "nat \<Rightarrow> (sys \<Rightarrow> exn + sys) \<Rightarrow> sys \<Rightarrow> exn + sys" where
  "repeat_handler 0 h s = Inr s"
| "repeat_handler (Suc n) h s =
     (case h s of Inl e \<Rightarrow> Inl e | Inr s' \<Rightarrow> repeat_handler n h s')"

section \<open>The auth gate (the socket module's auth.js)\<close>

text \<open>\<open>clearTimeout\<close>: a timer that is armed is cancelled; otherwise nothing happens.\<close>

definition clearTimeout :: "timer \<Rightarrow> timer" where
  "clearTimeout t = (if t = Armed then Cleared else t)"

text \<open>
  The listener \<open>forbidNamespaceConnections\<close> puts on the namespace's \<open>connect\<close>
  event.
\<close>

definition forbidNamespaceConnections :: "nat \<Rightarrow> sys \<Rightarrow> sys" where
  "forbidNamespaceConnections sid s =
     (if \<not> authenticated (sockets s ! sid)
      then s\<lparr>nsp_connected := removeAll sid (nsp_connected s)\<rparr>
      else s)"

text \<open>\<open>restoreNamespaceConnection\<close>, for the one namespace.\<close>

definition restoreNamespaceConnection :: "nat \<Rightarrow> sys \<Rightarrow> sys" where
  "restoreNamespaceConnection sid s =
     (if sid \<in> set (nsp_sockets s)
      then s\<lparr>nsp_connected := List.insert sid (nsp_connected s)\<rparr>
      else s)"

text \<open>
  A transport connect. socket.io enters the new socket in the namespace's \<open>sockets\<close>
  and \<open>connected\<close> tables and emits \<open>connect\<close>, then \<open>connection\<close>. The first runs
  the listener of \<open>forbidNamespaceConnections\<close> (\<open>socket.authenticated\<close> is still
  \<open>undefined\<close>, which is falsy: \<open>False\<close> here), the second the listener of
  \<open>socketAuth\<close>: the timer is set and \<open>authenticated\<close> becomes \<open>false\<close>.
\<close>

definition connect :: "sys \<Rightarrow> sys" where
  "connect s =
     (let sid = length (sockets s);
          s1 = s\<lparr>sockets := sockets s @
                   [\<lparr>authenticated = False, timer = NotSet, sessions = [], outbox = [],
                     closed = False\<rparr>],
                 nsp_sockets := nsp_sockets s @ [sid],
                 nsp_connected := nsp_connected s @ [sid]\<rparr>;
          s2 = forbidNamespaceConnections sid s1
      in upd_socket sid (\<lambda>c. c\<lparr>timer := Armed, authenticated := False\<rparr>) s2)"

text \<open>The timer's callback, which runs only if the timer is still armed.\<close>

definition on_timeout :: "nat \<Rightarrow> sys \<Rightarrow> sys" where
  "on_timeout sid s =
     (if sid < length (sockets s) \<and> timer (sockets s ! sid) = Armed
      then socket_emit sid (Emit ''unauthorized'' (JObj [(''type'', JStr ''TIMEOUT'')]) True)
             (upd_socket sid (\<lambda>c. c\<lparr>timer := Fired\<rparr>) s)
      else s)"

text \<open>
  \<open>socket.on('authenticate', ({ token }) => ...)\<close>. \<open>jwt.verify\<close> with the configured
  secret, issuer and audience is the parameter \<open>v\<close>: whether the token verifies (it throws
  otherwise).
\<close>

definition on_authenticate :: "(jsval \<Rightarrow> bool) \<Rightarrow> nat \<Rightarrow> jsval \<Rightarrow> sys \<Rightarrow> exn + sys" where
  "on_authenticate v sid msg s =
     (case destructure msg ''token'' of
        Inl e \<Rightarrow> Inl e
      | Inr token \<Rightarrow>
          (let s1 = upd_socket sid (\<lambda>c. c\<lparr>timer := clearTimeout (timer c)\<rparr>) s in
           if v token then
             (let s2 = upd_socket sid (\<lambda>c. c\<lparr>authenticated := True\<rparr>) s1;
                  s3 = gateway_client sid s2;
                  s4 = restoreNamespaceConnection sid s3
              in Inr (socket_emit sid (Emit ''authenticated'' JUndefined False) s4))
           else
             Inr (socket_emit sid
                    (Emit ''unauthorized'' (JObj [(''type'', JStr ''INVALID_TOKEN'')]) True) s1)))"

text \<open>
  \<open>socket.disconnect()\<close>, or the transport closing: the \<open>disconnect\<close> handlers run,
  and socket.io takes the socket out of the namespace's tables. On a socket that is
  already closed nothing happens.
\<close>

definition socket_disconnect :: "nat \<Rightarrow> sys \<Rightarrow> sys" where
  "socket_disconnect sid s =
     (if sid < length (sockets s) \<and> \<not> closed (sockets s ! sid) then
        (let s1 = fold (handle_disconnect sid) [0..<length (sessions (sockets s ! sid))] s;
             s2 = upd_socket sid (\<lambda>c. c\<lparr>closed := True\<rparr>) s1
         in s2\<lparr>nsp_sockets := removeAll sid (nsp_sockets s2),
               nsp_connected := removeAll sid (nsp_connected s2)\<rparr>)
      else s)"

fun has_ack :: "out_msg \<Rightarrow> bool" where
  "has_ack (Emit e d a) = a"

section \<open>The process as a transition system\<close>

text \<open>
  What a client can send on an open socket, and what can happen to the process: a
  transport connect, a message, the auth timer firing, the client acknowledging an event
  that was emitted with a callback, a disconnect, and a module of the process calling
  \<open>registerReducer\<close>, \<open>callAction\<close> or \<open>emitEvent\<close>.
\<close>

datatype client_msg =
    Authenticate jsval
  | Action jsval
  | Subscribe string
  | Unsubscribe string

datatype event =
    Connect
  | Client nat client_msg
  | TimerFires nat
  | Ack nat
  | Disconnect nat
  | Register string action
  | Dispatch jsval jsval
  | Publish string jsval

definition step ::
  "(jsval \<Rightarrow> bool) \<Rightarrow> (string \<Rightarrow> string \<Rightarrow> bool) \<Rightarrow> event \<Rightarrow> sys \<Rightarrow> exn + sys" where
  "step v m e s =
     (case e of
        Connect \<Rightarrow> Inr (connect s)
      | Client sid msg \<Rightarrow>
          if sid < length (sockets s) \<and> \<not> closed (sockets s ! sid) then
            (case msg of
               Authenticate p \<Rightarrow> on_authenticate v sid p s
             | Action p \<Rightarrow>
                 repeat_handler (length (sessions (sockets s ! sid))) (handle_action m p) s
             | Subscribe ev \<Rightarrow>
                 Inr (fold (\<lambda>i. handle_subscribe sid i ev)
                        [0..<length (sessions (sockets s ! sid))] s)
             | Unsubscribe ev \<Rightarrow>
                 Inr (fold (\<lambda>i. handle_unsubscribe sid i ev)
                        [0..<length (sessions (sockets s ! sid))] s))
          else Inr s
      | TimerFires sid \<Rightarrow> Inr (on_timeout sid s)
      | Ack sid \<Rightarrow>
          if sid < length (sockets s) \<and> list_ex has_ack (outbox (sockets s ! sid))
          then Inr (socket_disconnect sid s)
          else Inr s
      | Disconnect sid \<Rightarrow> Inr (socket_disconnect sid s)
      | Register a x \<Rightarrow> Inr (registerReducer a (reducer x) (validate x) s)
      | Dispatch k d \<Rightarrow> callAction m k d s
      | Publish t p \<Rightarrow> Inr (emitEvent m t p s))"

fun run ::
  "(jsval \<Rightarrow> bool) \<Rightarrow> (string \<Rightarrow> string \<Rightarrow> bool) \<Rightarrow> event list \<Rightarrow> sys \<Rightarrow> exn + sys" where
  "run v m [] s = Inr s"
| "run v m (e # es) s = (case step v m e s of Inl x \<Rightarrow> Inl x | Inr s' \<Rightarrow> run v m es s')"

text \<open>
  The gate's invariant: every listener on the emitter relays to a socket that is
  authenticated, so does every entry of the namespace's \<open>connected\<close> table, a socket
  that is not authenticated has no \<open>subscriptions\<close> table, every socket's timer
  was set, and the timer of an authenticated socket is not armed.
\<close>

definition gate_inv :: "sys \<Rightarrow> bool" where
  "gate_inv s \<longleftrightarrow>
     list_all (\<lambda>l. owner l < length (sockets s) \<and> authenticated (sockets s ! owner l))
       (listeners s) \<and>
     list_all (\<lambda>sid. sid < length (sockets s) \<and> authenticated (sockets s ! sid))
       (nsp_connected s) \<and>
     list_all (\<lambda>c. timer c \<noteq> NotSet \<and>
                   (\<not> authenticated c \<longrightarrow> sessions c = []) \<and>
                   (authenticated c \<longrightarrow> timer c \<noteq> Armed))
       (sockets s)"

section \<open>The commit of a snapshot, with references\<close>

text \<open>
  For what \<open>state = Object.assign({}, newState)\<close> shares with \<open>newState\<close>, objects
  are kept in a heap: an address is an index, a property holds a primitive value or a
  reference.
\<close>

datatype hval = HUndefined | HNull | HBool bool | HNum int | HStr string | HRef nat

type_synonym heap = "(string \<times> hval) list list"

text \<open>\<open>Object.assign({}, src)\<close> for the object at the address \<open>a\<close>: the new object
  gets the next address, and the values of the properties are copied as they are.\<close>

definition heap_object_assign :: "heap \<Rightarrow> nat \<Rightarrow> (heap \<times> nat) option" where
  "heap_object_assign h a =
     (if a < length h
      then Some (h @ [fold (\<lambda>(k, v) target. AList.update k v target) (h ! a) []], length h)
      else None)"

text \<open>\<open>o[k] = v\<close> for the object at the address \<open>a\<close>.\<close>

definition heap_set :: "heap \<Rightarrow> nat \<Rightarrow> string \<Rightarrow> hval \<Rightarrow> heap" where
  "heap_set h a k v = (if a < length h then h[a := AList.update k v (h ! a)] else h)"

text \<open>
  Reading a path of property names from a value, \<open>x.k1.k2\<close>; \<open>None\<close> where
  JavaScript throws (a property of \<open>undefined\<close> or \<open>null\<close>).
\<close>

fun heap_read :: "heap \<Rightarrow> hval \<Rightarrow> string list \<Rightarrow> hval option" where
  "heap_read h v [] = Some v"
| "heap_read h (HRef a) (k # ks) =
     (if a < length h
      then heap_read h (case map_of (h ! a) k of None \<Rightarrow> HUndefined | Some v \<Rightarrow> v) ks
      else None)"
| "heap_read h HUndefined (k # ks) = None"
| "heap_read h HNull (k # ks) = None"
| "heap_read h v (k # ks) = heap_read h HUndefined ks"

text \<open>The module variable \<open>state\<close> as a reference into the heap.\<close>

record hstore =
  heap :: heap
  state_ref :: nat

text \<open>The assignment \<open>state = Object.assign({}, newState)\<close>, \<open>newState\<close> being the
  object at the address \<open>a\<close>.\<close>

definition commit_state :: "hstore \<Rightarrow> nat \<Rightarrow> hstore option" where
  "commit_state st a =
     (case heap_object_assign (heap st) a of
        None \<Rightarrow> None
      | Some (h', r) \<Rightarrow> Some \<lparr>heap = h', state_ref = r\<rparr>)"

section \<open>Sample inputs\<close>

text \<open>
  Concrete reducers, validators and a token check, used where a statement is evaluated
  on an input: a validator that accepts every payload, one that accepts numbers only, a
  reducer that stores the payload under \<open>count\<close>, one that returns the old state, and
  a verifier that accepts the token \<open>good\<close>.
\<close>

definition always_valid :: "jsval \<Rightarrow> exn + jsval" where
  "always_valid d = Inr (JBool True)"

definition number_only :: "jsval \<Rightarrow> exn + jsval" where
  "number_only d = Inr (JBool (case d of JNum n \<Rightarrow> True | _ \<Rightarrow> False))"

definition set_count :: "snapshot \<Rightarrow> jsval \<Rightarrow> exn + snapshot" where
  "set_count st d = Inr (AList.update ''count'' d st)"

definition same_state :: "snapshot \<Rightarrow> jsval \<Rightarrow> exn + snapshot" where
  "same_state st d = Inr st"

definition throwing_valid :: "jsval \<Rightarrow> exn + jsval" where
  "throwing_valid d = Inl (Thrown (JStr ''invalid''))"

definition token_ok :: "jsval \<Rightarrow> bool" where
  "token_ok t = (t = JStr ''good'')"

text \<open>A registry with three actions, and the process started with it.\<close>

definition sample_actions :: "string \<rightharpoonup> action" where
  "sample_actions =
     [''COUNT:SET'' \<mapsto> \<lparr>reducer = set_count, validate = number_only\<rparr>,
      ''NOOP'' \<mapsto> \<lparr>reducer = same_state, validate = always_valid\<rparr>,
      ''BOOM'' \<mapsto> \<lparr>reducer = same_state, validate = throwing_valid\<rparr>]"

definition sample_init :: sys where
  "sample_init = init_sys sample_actions [(''count'', JNum 0)]"

text \<open>
  Two clients connect; the second authenticates and subscribes to \<open>*\<close>; the first
  sends a subscribe message without having authenticated. \<open>sample_sys\<close> is the
  process after these events.
\<close>

definition sample_events :: "event list" where
  "sample_events =
     [Connect, Connect, Client 1 (Authenticate (JObj [(''token'', JStr ''good'')])),
      Client 1 (Subscribe ''*''), Client 0 (Subscribe ''*'')]"

definition sample_sys :: sys where
  "sample_sys =
     \<lparr>actions = sample_actions, state = [(''count'', JNum 0)],
      listeners = [\<lparr>lid = 0, owner = 1, pattern = ''*''\<rparr>], published = [],
      sockets =
        [\<lparr>authenticated = False, timer = Armed, sessions = [], outbox = [], closed = False\<rparr>,
         \<lparr>authenticated = True, timer = Cleared, sessions = [[(''*'', 0)]],
          outbox = [Emit ''initial-state'' (JObj [(''state'', JObj [(''count'', JNum 0)])]) False,
                    Emit ''authenticated'' JUndefined False],
          closed = False\<rparr>],
      nsp_sockets = [0, 1], nsp_connected = [1], next_lid = 1\<rparr>"

text \<open>A heap with the old state, a candidate and an object the candidate refers to.\<close>

definition sample_heap :: heap where
  "sample_heap = [[(''lights'', HRef 2)], [(''lights'', HRef 2)], [(''on'', HBool True)]]"

section \<open>Projections used in the statements\<close>

text \<open>
  What the gate's invariant reads of the process: the listeners, the \<open>connected\<close>
  table, and of every socket the flag, the timer and the subscription tables.
\<close>

definition gate_view :: "sys \<Rightarrow> listener list \<times> nat list \<times> (bool \<times> timer \<times> (string \<times> nat) list list) list" where
  "gate_view s =
     (listeners s, nsp_connected s,
      map (\<lambda>c. (authenticated c, timer c, sessions c)) (sockets s))"

text \<open>The socket \<open>sid\<close> after a run, if the run did not throw and the socket exists.\<close>

definition socket_after :: "exn + sys \<Rightarrow> nat \<Rightarrow> socket option" where
  "socket_after r sid =
     (case r of
        Inl e \<Rightarrow> None
      | Inr s \<Rightarrow> if sid < length (sockets s) then Some (sockets s ! sid) else None)"

section \<open>Frame lemmas: what an emit changes\<close>

lemma upd_socket_frame [simp]:
  "state (upd_socket sid f s) = state s" "published (upd_socket sid f s) = published s"
  "actions (upd_socket sid f s) = actions s" "listeners (upd_socket sid f s) = listeners s"
  "nsp_connected (upd_socket sid f s) = nsp_connected s"
  "nsp_sockets (upd_socket sid f s) = nsp_sockets s"
  "next_lid (upd_socket sid f s) = next_lid s"
  "length (sockets (upd_socket sid f s)) = length (sockets s)"
  by (simp_all add: upd_socket_def)

lemma upd_socket_same:
  "sid < length (sockets s) \<Longrightarrow> sockets (upd_socket sid f s) ! sid = f (sockets s ! sid)"
  by (simp add: upd_socket_def)

lemma socket_emit_frame [simp]:
  "state (socket_emit sid x s) = state s" "published (socket_emit sid x s) = published s"
  "actions (socket_emit sid x s) = actions s" "listeners (socket_emit sid x s) = listeners s"
  "nsp_connected (socket_emit sid x s) = nsp_connected s"
  "nsp_sockets (socket_emit sid x s) = nsp_sockets s"
  "next_lid (socket_emit sid x s) = next_lid s"
  "length (sockets (socket_emit sid x s)) = length (sockets s)"
  by (simp_all add: socket_emit_def)

lemma socket_emit_same:
  "sid < length (sockets s) \<Longrightarrow>
   sockets (socket_emit sid x s) ! sid =
     (sockets s ! sid)\<lparr>outbox := outbox (sockets s ! sid) @ [x]\<rparr>"
  by (simp add: socket_emit_def upd_socket_same)

lemma relay_frame [simp]:
  "state (relay l t p s) = state s" "published (relay l t p s) = published s"
  "actions (relay l t p s) = actions s" "listeners (relay l t p s) = listeners s"
  "nsp_connected (relay l t p s) = nsp_connected s"
  "nsp_sockets (relay l t p s) = nsp_sockets s"
  "next_lid (relay l t p s) = next_lid s"
  "length (sockets (relay l t p s)) = length (sockets s)"
  by (simp_all add: relay_def)

lemma fold_relay_frame [simp]:
  "state (fold (\<lambda>l. relay l t p) ls s) = state s"
  "published (fold (\<lambda>l. relay l t p) ls s) = published s"
  "actions (fold (\<lambda>l. relay l t p) ls s) = actions s"
  "listeners (fold (\<lambda>l. relay l t p) ls s) = listeners s"
  "nsp_connected (fold (\<lambda>l. relay l t p) ls s) = nsp_connected s"
  "nsp_sockets (fold (\<lambda>l. relay l t p) ls s) = nsp_sockets s"
  "next_lid (fold (\<lambda>l. relay l t p) ls s) = next_lid s"
  "length (sockets (fold (\<lambda>l. relay l t p) ls s)) = length (sockets s)"
  by (induction ls arbitrary: s; simp)+

lemma emitter_emit_frame [simp]:
  "state (emitter_emit m t p s) = state s"
  "published (emitter_emit m t p s) =
     published s @ [\<lparr>topic = t, payload = p, seen = state s\<rparr>]"
  "actions (emitter_emit m t p s) = actions s"
  "listeners (emitter_emit m t p s) = listeners s"
  "nsp_connected (emitter_emit m t p s) = nsp_connected s"
  "nsp_sockets (emitter_emit m t p s) = nsp_sockets s"
  "next_lid (emitter_emit m t p s) = next_lid s"
  "length (sockets (emitter_emit m t p s)) = length (sockets s)"
  by (simp_all add: emitter_emit_def)

lemma fold_emit_state [simp]:
  "state (fold (\<lambda>k. emitter_emit m (f k) p) ks s) = state s"
  by (induction ks arbitrary: s) simp_all

lemma fold_emit_listeners [simp]:
  "listeners (fold (\<lambda>k. emitter_emit m (f k) p) ks s) = listeners s"
  by (induction ks arbitrary: s) simp_all

lemma fold_emit_published:
  "published (fold (\<lambda>k. emitter_emit m (f k) p) ks s) =
     published s @ map (\<lambda>k. \<lparr>topic = f k, payload = p, seen = state s\<rparr>) ks"
  by (induction ks arbitrary: s) simp_all

lemma state_commit [simp]:
  "state (commit_and_publish m K d new s) = object_assign new"
  by (simp add: commit_and_publish_def Let_def)

lemma published_commit:
  "published (commit_and_publish m K d new s) =
     published s @
     map (\<lambda>key. \<lparr>topic = ''update:'' @ key,
                 payload = JObj [(''state'', JObj (diff (state s) new))],
                 seen = object_assign new\<rparr>)
       (object_keys (diff (state s) new)) @
     [\<lparr>topic = ''update'',
       payload = JObj [(''state'', JObj (diff (state s) new)), (''action'', JStr K),
                       (''diff'', JArr (map JStr (object_keys (diff (state s) new))))],
       seen = object_assign new\<rparr>,
      \<lparr>topic = ''action:'' @ K,
       payload = JObj [(''state'', JObj new), (''action'', JStr K), (''actionData'', d),
                       (''diff'', JArr (map JStr (object_keys (diff (state s) new))))],
       seen = object_assign new\<rparr>]"
  by (simp add: commit_and_publish_def Let_def fold_emit_published)

lemma diff_same: "diff a a = []"
  by (simp add: diff_def)

lemma diff_keys_distinct: "distinct (object_keys (diff a b))"
  by (simp add: diff_def object_keys_def comp_def)

section \<open>Evaluation of the sample inputs\<close>

lemma upper_ping: "toUpperCase ''ping'' = ''PING''"
  by code_simp

lemma upper_Ping: "toUpperCase ''Ping'' = ''PING''"
  by code_simp

lemma upper_count_set: "toUpperCase ''count:set'' = ''COUNT:SET''"
  by code_simp

lemma upper_noop: "toUpperCase ''noop'' = ''NOOP''"
  by code_simp

lemma upper_boom: "toUpperCase ''Boom'' = ''BOOM''"
  by code_simp

lemma sample_lookup:
  "actions sample_init ''PING'' = None"
  "actions sample_init ''COUNT:SET'' = Some \<lparr>reducer = set_count, validate = number_only\<rparr>"
  "actions sample_init ''NOOP'' = Some \<lparr>reducer = same_state, validate = always_valid\<rparr>"
  "actions sample_init ''BOOM'' = Some \<lparr>reducer = same_state, validate = throwing_valid\<rparr>"
  "state sample_init = [(''count'', JNum 0)]"
  "published sample_init = []"
  by (simp_all add: sample_init_def init_sys_def sample_actions_def)

section \<open>Dispatch (callAction)\<close>

text \<open>
  C2. Dispatching an action id that is not in the registry after normalisation returns
  with the process exactly as it was: the same snapshot, no publish on any topic, nothing
  relayed to any socket.
\<close>

theorem unknown_action_no_effect:
  "toUpperCase k \<notin> dom (actions s) \<Longrightarrow> callAction m (JStr k) d s = Inr s"
  by (auto simp: callAction_def lookup_action_def split: option.splits)

theorem unknown_action_no_effect_witness:
  "toUpperCase ''ping'' \<notin> dom (actions sample_init) \<and>
   callAction (=) (JStr ''ping'') (JNum 5) sample_init = Inr sample_init"
proof -
  have h: "toUpperCase ''ping'' \<notin> dom (actions sample_init)"
    by (simp add: upper_ping sample_lookup domIff)
  from h unknown_action_no_effect [OF h] show ?thesis by simp
qed

text \<open>
  C3. When the validator of a registered action returns a falsy value for the payload,
  the dispatch returns with the process exactly as it was (same snapshot, no publish).
  When it returns a truthy value, the outcome does not depend on that value: the reducer
  is called with the payload that was dispatched, and the events carry that payload.
\<close>

theorem invalid_payload_no_effect:
  "actions s (toUpperCase k) = Some a \<Longrightarrow> validate a d = Inr r \<Longrightarrow>
   (\<not> truthy r \<longrightarrow> callAction m (JStr k) d s = Inr s) \<and>
   (truthy r \<longrightarrow>
      callAction m (JStr k) d s =
        (case reducer a (state s) d of
           Inl e \<Rightarrow> Inl e
         | Inr newState \<Rightarrow> Inr (commit_and_publish m (toUpperCase k) d newState s)))"
  by (simp add: callAction_def lookup_action_def)

theorem invalid_payload_no_effect_witness:
  "actions sample_init (toUpperCase ''count:set'') =
     Some \<lparr>reducer = set_count, validate = number_only\<rparr> \<and>
   validate \<lparr>reducer = set_count, validate = number_only\<rparr> (JStr ''x'') = Inr (JBool False) \<and>
   validate \<lparr>reducer = set_count, validate = number_only\<rparr> (JNum 5) = Inr (JBool True) \<and>
   callAction (=) (JStr ''count:set'') (JStr ''x'') sample_init = Inr sample_init \<and>
   callAction (=) (JStr ''count:set'') (JNum 5) sample_init =
     Inr (commit_and_publish (=) ''COUNT:SET'' (JNum 5) [(''count'', JNum 5)] sample_init)"
proof -
  have a: "actions sample_init (toUpperCase ''count:set'') =
      Some \<lparr>reducer = set_count, validate = number_only\<rparr>"
    by (simp add: upper_count_set sample_lookup)
  have v1: "validate \<lparr>reducer = set_count, validate = number_only\<rparr> (JStr ''x'') =
      Inr (JBool False)"
    by (simp add: number_only_def)
  have v2: "validate \<lparr>reducer = set_count, validate = number_only\<rparr> (JNum 5) =
      Inr (JBool True)"
    by (simp add: number_only_def)
  from invalid_payload_no_effect [OF a v1, of "(=)"] invalid_payload_no_effect [OF a v2, of "(=)"]
    a v1 v2
  show ?thesis
    by (simp add: upper_count_set sample_lookup set_count_def)
qed

text \<open>
  C4. On a successful dispatch every publish happens with the new snapshot already in
  place (each emit sees the committed snapshot), and the publishes are, in this order:
  one \<open>update:<key>\<close> for each key of the diff, each with the payload
  \<open>{ state: diff }\<close>; one \<open>update\<close> with \<open>{ state: diff, action, diff: keys }\<close>;
  one \<open>action:<id>\<close> with \<open>{ state: newState, action, actionData, diff: keys }\<close>.
  The id is the normalised one.
\<close>

theorem dispatch_publish_order:
  assumes "actions s (toUpperCase k) = Some a"
    and "validate a d = Inr r" and "truthy r"
    and "reducer a (state s) d = Inr new"
  shows "\<exists>s'. callAction m (JStr k) d s = Inr s' \<and>
           state s' = object_assign new \<and>
           distinct (object_keys (diff (state s) new)) \<and>
           published s' =
             published s @
             map (\<lambda>key. \<lparr>topic = ''update:'' @ key,
                         payload = JObj [(''state'', JObj (diff (state s) new))],
                         seen = state s'\<rparr>)
               (object_keys (diff (state s) new)) @
             [\<lparr>topic = ''update'',
               payload = JObj [(''state'', JObj (diff (state s) new)),
                               (''action'', JStr (toUpperCase k)),
                               (''diff'', JArr (map JStr (object_keys (diff (state s) new))))],
               seen = state s'\<rparr>,
              \<lparr>topic = ''action:'' @ toUpperCase k,
               payload = JObj [(''state'', JObj new), (''action'', JStr (toUpperCase k)),
                               (''actionData'', d),
                               (''diff'', JArr (map JStr (object_keys (diff (state s) new))))],
               seen = state s'\<rparr>]"
  using assms
  by (simp add: callAction_def lookup_action_def published_commit diff_keys_distinct)

theorem dispatch_publish_order_witness:
  "actions sample_init (toUpperCase ''count:set'') =
     Some \<lparr>reducer = set_count, validate = number_only\<rparr> \<and>
   validate \<lparr>reducer = set_count, validate = number_only\<rparr> (JNum 5) = Inr (JBool True) \<and>
   truthy (JBool True) \<and>
   reducer \<lparr>reducer = set_count, validate = number_only\<rparr> (state sample_init) (JNum 5) =
     Inr [(''count'', JNum 5)] \<and>
   (\<exists>s'. callAction (=) (JStr ''count:set'') (JNum 5) sample_init = Inr s' \<and>
      state s' = [(''count'', JNum 5)] \<and>
      published s' =
        [\<lparr>topic = ''update:count'',
          payload = JObj [(''state'', JObj [(''count'', JNum 5)])],
          seen = [(''count'', JNum 5)]\<rparr>,
         \<lparr>topic = ''update'',
          payload = JObj [(''state'', JObj [(''count'', JNum 5)]),
                          (''action'', JStr ''COUNT:SET''),
                          (''diff'', JArr [JStr ''count''])],
          seen = [(''count'', JNum 5)]\<rparr>,
         \<lparr>topic = ''action:COUNT:SET'',
          payload = JObj [(''state'', JObj [(''count'', JNum 5)]),
                          (''action'', JStr ''COUNT:SET''), (''actionData'', JNum 5),
                          (''diff'', JArr [JStr ''count''])],
          seen = [(''count'', JNum 5)]\<rparr>])"
proof -
  have a: "actions sample_init (toUpperCase ''count:set'') =
      Some \<lparr>reducer = set_count, validate = number_only\<rparr>"
    by (simp add: upper_count_set sample_lookup)
  have v: "validate \<lparr>reducer = set_count, validate = number_only\<rparr> (JNum 5) =
      Inr (JBool True)"
    by (simp add: number_only_def)
  have t: "truthy (JBool True)" by simp
  have r: "reducer \<lparr>reducer = set_count, validate = number_only\<rparr> (state sample_init)
      (JNum 5) = Inr [(''count'', JNum 5)]"
    by (simp add: set_count_def sample_lookup)
  have d: "diff [(''count'', JNum 0)] [(''count'', JNum 5)] = [(''count'', JNum 5)]"
    by (simp add: diff_def object_keys_def get_prop_def)
  have o: "object_assign [(''count'', JNum 5)] = [(''count'', JNum 5)]"
    by (simp add: object_assign_def)
  from dispatch_publish_order [OF a v t r, of "(=)"] a v r
  show ?thesis
    by (auto simp: sample_lookup d o object_keys_def upper_count_set)
qed

text \<open>
  C9. The diff of a snapshot with itself is empty. So a dispatch whose reducer returns
  the old snapshot publishes no \<open>update:<key>\<close> at all, and still publishes
  \<open>update\<close> and \<open>action:<id>\<close>, with an empty diff and an empty key list.
\<close>

theorem noop_dispatch_empty_diff:
  "diff S S = [] \<and>
   (actions s (toUpperCase k) = Some a \<longrightarrow> validate a d = Inr r \<longrightarrow> truthy r \<longrightarrow>
    reducer a (state s) d = Inr (state s) \<longrightarrow>
      (\<exists>s'. callAction m (JStr k) d s = Inr s' \<and>
         published s' =
           published s @
           [\<lparr>topic = ''update'',
             payload = JObj [(''state'', JObj []), (''action'', JStr (toUpperCase k)),
                             (''diff'', JArr [])],
             seen = state s'\<rparr>,
            \<lparr>topic = ''action:'' @ toUpperCase k,
             payload = JObj [(''state'', JObj (state s)), (''action'', JStr (toUpperCase k)),
                             (''actionData'', d), (''diff'', JArr [])],
             seen = state s'\<rparr>]))"
  by (simp add: callAction_def lookup_action_def published_commit object_keys_def diff_same)

theorem noop_dispatch_empty_diff_witness:
  "actions sample_init (toUpperCase ''noop'') =
     Some \<lparr>reducer = same_state, validate = always_valid\<rparr> \<and>
   validate \<lparr>reducer = same_state, validate = always_valid\<rparr> JNull = Inr (JBool True) \<and>
   truthy (JBool True) \<and>
   reducer \<lparr>reducer = same_state, validate = always_valid\<rparr> (state sample_init) JNull =
     Inr (state sample_init) \<and>
   (\<exists>s'. callAction (=) (JStr ''noop'') JNull sample_init = Inr s' \<and>
      published s' =
        [\<lparr>topic = ''update'',
          payload = JObj [(''state'', JObj []), (''action'', JStr ''NOOP''), (''diff'', JArr [])],
          seen = [(''count'', JNum 0)]\<rparr>,
         \<lparr>topic = ''action:NOOP'',
          payload = JObj [(''state'', JObj [(''count'', JNum 0)]), (''action'', JStr ''NOOP''),
                          (''actionData'', JNull), (''diff'', JArr [])],
          seen = [(''count'', JNum 0)]\<rparr>])"
proof -
  have a: "actions sample_init (toUpperCase ''noop'') =
      Some \<lparr>reducer = same_state, validate = always_valid\<rparr>"
    by (simp add: upper_noop sample_lookup)
  have v: "validate \<lparr>reducer = same_state, validate = always_valid\<rparr> JNull = Inr (JBool True)"
    by (simp add: always_valid_def)
  have t: "truthy (JBool True)" by simp
  have r: "reducer \<lparr>reducer = same_state, validate = always_valid\<rparr> (state sample_init) JNull =
      Inr (state sample_init)"
    by (simp add: same_state_def)
  have o: "object_assign [(''count'', JNum 0)] = [(''count'', JNum 0)]"
    by (simp add: object_assign_def)
  have c: "callAction (=) (JStr ''noop'') JNull sample_init =
      Inr (commit_and_publish (=) ''NOOP'' JNull [(''count'', JNum 0)] sample_init)"
    by (simp add: callAction_def lookup_action_def upper_noop sample_lookup always_valid_def
        same_state_def)
  from noop_dispatch_empty_diff [of "state sample_init" sample_init "''noop''"
      "\<lparr>reducer = same_state, validate = always_valid\<rparr>" JNull "JBool True" "(=)"] a v t r
  show ?thesis
    by (simp add: c sample_lookup upper_noop o)
qed

text \<open>
  C10. \<open>callAction\<close> is not safe to call with any value: when the action key is not a
  string it throws a TypeError at the normalisation, before the lookup; this is what
  happens when a client's \<open>action\<close> message has no \<open>action\<close> field. With a string
  key the lookup is reached: the call throws only what the validator or the reducer of
  the action that was found throws.
\<close>

theorem callAction_throws_on_non_string:
  "(\<not> is_string k \<longrightarrow> callAction m k d s = Inl TypeError) \<and>
   (destructure msg ''action'' = Inr JUndefined \<longrightarrow> handle_action m msg s = Inl TypeError) \<and>
   (callAction m (JStr n) d s = Inl e \<longrightarrow>
      (\<exists>a. lookup_action s n = Some a \<and>
           (validate a d = Inl e \<or> reducer a (state s) d = Inl e)))"
proof (intro conjI impI)
  assume "\<not> is_string k"
  then show "callAction m k d s = Inl TypeError"
    by (cases k) (simp_all add: callAction_def)
next
  assume "destructure msg ''action'' = Inr JUndefined"
  then show "handle_action m msg s = Inl TypeError"
    by (cases msg) (simp_all add: handle_action_def callAction_def)
next
  assume "callAction m (JStr n) d s = Inl e"
  then show "\<exists>a. lookup_action s n = Some a \<and>
           (validate a d = Inl e \<or> reducer a (state s) d = Inl e)"
    by (auto simp: callAction_def split: option.splits sum.splits if_splits)
qed

theorem callAction_throws_on_non_string_witness:
  "\<not> is_string JUndefined \<and>
   callAction (=) JUndefined (JNum 5) sample_init = Inl TypeError \<and>
   destructure (JObj [(''data'', JNum 5)]) ''action'' = Inr JUndefined \<and>
   handle_action (=) (JObj [(''data'', JNum 5)]) sample_init = Inl TypeError \<and>
   callAction (=) (JStr ''Boom'') JNull sample_init = Inl (Thrown (JStr ''invalid'')) \<and>
   (\<exists>a. lookup_action sample_init ''Boom'' = Some a \<and>
        (validate a JNull = Inl (Thrown (JStr ''invalid'')) \<or>
         reducer a (state sample_init) JNull = Inl (Thrown (JStr ''invalid''))))"
proof -
  have n: "\<not> is_string JUndefined" by simp
  have g: "destructure (JObj [(''data'', JNum 5)]) ''action'' = Inr JUndefined"
    by (simp add: get_prop_def)
  have b: "callAction (=) (JStr ''Boom'') JNull sample_init = Inl (Thrown (JStr ''invalid''))"
    by (simp add: callAction_def lookup_action_def upper_boom sample_lookup throwing_valid_def)
  from callAction_throws_on_non_string [where k = JUndefined and m = "(=)" and d = "JNum 5"
      and s = sample_init and msg = "JObj [(''data'', JNum 5)]"]
    callAction_throws_on_non_string [where m = "(=)" and d = JNull and s = sample_init
      and n = "''Boom''" and e = "Thrown (JStr ''invalid'')"] n g b
  show ?thesis by simp
qed

section \<open>Registration (registerReducer)\<close>

text \<open>
  C6, as the code has it. \<open>registerReducer\<close> stores the pair under the id exactly as
  it is given; it does not normalise it. \<open>callAction\<close> upper-cases the id it is given
  before the lookup. So a later dispatch finds the pair exactly when its upper-cased id
  is the id that was registered (for an id registered in upper case: in any letter case),
  and then runs that validator and that reducer.
\<close>

theorem register_lookup:
  "actions (registerReducer a r v s) a = Some \<lparr>reducer = r, validate = v\<rparr> \<and>
   lookup_action (registerReducer a r v s) k =
     (if toUpperCase k = a then Some \<lparr>reducer = r, validate = v\<rparr> else lookup_action s k) \<and>
   (toUpperCase k = a \<longrightarrow>
      callAction m (JStr k) d (registerReducer a r v s) =
        (case v d of
           Inl e \<Rightarrow> Inl e
         | Inr ok \<Rightarrow>
             if \<not> truthy ok then Inr (registerReducer a r v s)
             else (case r (state s) d of
                     Inl e \<Rightarrow> Inl e
                   | Inr newState \<Rightarrow>
                       Inr (commit_and_publish m a d newState (registerReducer a r v s)))))"
  by (auto simp: registerReducer_def lookup_action_def callAction_def split: sum.splits)

theorem register_lookup_witness:
  "toUpperCase ''Ping'' = ''PING'' \<and>
   lookup_action (registerReducer ''PING'' set_count always_valid sample_init) ''Ping'' =
     Some \<lparr>reducer = set_count, validate = always_valid\<rparr> \<and>
   callAction (=) (JStr ''Ping'') (JNum 5)
       (registerReducer ''PING'' set_count always_valid sample_init) =
     Inr (commit_and_publish (=) ''PING'' (JNum 5) [(''count'', JNum 5)]
            (registerReducer ''PING'' set_count always_valid sample_init))"
proof -
  have u: "toUpperCase ''Ping'' = ''PING''" by (rule upper_Ping)
  from register_lookup [of "''PING''" set_count always_valid sample_init "''Ping''" "(=)" "JNum 5"] u
  show ?thesis
    by (simp add: always_valid_def set_count_def sample_lookup)
qed

text \<open>
  The claim as the spec states it fails: an action registered under \<open>ping\<close> is stored
  under \<open>ping\<close>, not under \<open>PING\<close>, and the dispatch of the same id \<open>ping\<close> does
  not find it; the process is unchanged although the validator accepts the payload.
\<close>

theorem register_not_normalised_counterexample:
  "actions (registerReducer ''ping'' set_count always_valid sample_init) ''PING'' = None \<and>
   lookup_action (registerReducer ''ping'' set_count always_valid sample_init) ''ping'' = None \<and>
   callAction (=) (JStr ''ping'') (JNum 5)
       (registerReducer ''ping'' set_count always_valid sample_init) =
     Inr (registerReducer ''ping'' set_count always_valid sample_init)"
  by (simp add: callAction_def lookup_action_def registerReducer_def upper_ping sample_lookup)

section \<open>The committed snapshot and its references\<close>

lemma update_fresh: "k \<notin> fst ` set al \<Longrightarrow> AList.update k v al = al @ [(k, v)]"
  by (induction al) auto

lemma assign_distinct:
  "distinct (map fst xs) \<Longrightarrow> fst ` set xs \<inter> fst ` set acc = {} \<Longrightarrow>
   fold (\<lambda>(k, v) target. AList.update k v target) xs acc = acc @ xs"
proof (induction xs arbitrary: acc)
  case Nil
  then show ?case by simp
next
  case (Cons x xs)
  obtain k v where x: "x = (k, v)" by (cases x)
  from Cons.prems x have fresh: "k \<notin> fst ` set acc" by auto
  from Cons.prems x have "distinct (map fst xs)"
    and "fst ` set xs \<inter> fst ` set (acc @ [(k, v)]) = {}"
    by auto
  from Cons.IH [OF this] fresh x show ?case
    by (simp add: update_fresh)
qed

lemma object_assign_id: "distinct (map fst xs) \<Longrightarrow> object_assign xs = xs"
  using assign_distinct [of xs "[]"] by (simp add: object_assign_def)

text \<open>
  C5, as the code has it. The copy is shallow. The committed snapshot is a new object,
  at an address that no reference held before the commit has; it has the candidate's own
  properties with the candidate's values (references are copied as references); no
  object that existed before is changed; and an assignment to a property of any other
  object, the candidate included, leaves the committed object's own property table as it
  is. Objects that the candidate refers to are shared with the committed snapshot.
\<close>

theorem commit_is_shallow_copy:
  assumes "commit_state st a = Some st'" and "distinct (map fst (heap st ! a))"
  shows "a < length (heap st) \<and> state_ref st' = length (heap st) \<and>
         heap st' = heap st @ [heap st ! a] \<and>
         (\<forall>b k v. b \<noteq> state_ref st' \<longrightarrow>
            heap_set (heap st') b k v ! state_ref st' = heap st' ! state_ref st')"
proof -
  from assms(1) have a: "a < length (heap st)"
    by (auto simp: commit_state_def heap_object_assign_def split: if_splits)
  from assms(2)
  have "fold (\<lambda>(k, v) target. AList.update k v target) (heap st ! a) [] = heap st ! a"
    using assign_distinct [of "heap st ! a" "[]"] by simp
  with assms(1) a
  have st': "st' = \<lparr>heap = heap st @ [heap st ! a], state_ref = length (heap st)\<rparr>"
    by (simp add: commit_state_def heap_object_assign_def)
  then show ?thesis using a
    by (simp add: heap_set_def)
qed

theorem commit_is_shallow_copy_witness:
  "commit_state \<lparr>heap = sample_heap, state_ref = 0\<rparr> 1 =
     Some \<lparr>heap = sample_heap @ [[(''lights'', HRef 2)]], state_ref = 3\<rparr> \<and>
   distinct (map fst (heap \<lparr>heap = sample_heap, state_ref = 0\<rparr> ! 1)) \<and>
   heap_set (sample_heap @ [[(''lights'', HRef 2)]]) 1 ''lights'' HNull ! 3 =
     [(''lights'', HRef 2)]"
proof -
  have c: "commit_state \<lparr>heap = sample_heap, state_ref = 0\<rparr> 1 =
     Some \<lparr>heap = sample_heap @ [[(''lights'', HRef 2)]], state_ref = 3\<rparr>"
    by (simp add: commit_state_def heap_object_assign_def sample_heap_def)
  have d: "distinct (map fst (heap \<lparr>heap = sample_heap, state_ref = 0\<rparr> ! 1))"
    by (simp add: sample_heap_def)
  from commit_is_shallow_copy [OF c d] c d show ?thesis
    by (simp add: sample_heap_def)
qed

text \<open>
  The claim as the spec states it fails on what is reachable from the candidate: after
  the commit of the candidate at address 1, whose \<open>lights\<close> is the object at address 2,
  the assignment \<open>candidate.lights.on = false\<close> changes what the committed snapshot
  reads under \<open>lights.on\<close>.
\<close>

theorem commit_shares_nested_counterexample:
  "commit_state \<lparr>heap = sample_heap, state_ref = 0\<rparr> 1 =
     Some \<lparr>heap = sample_heap @ [[(''lights'', HRef 2)]], state_ref = 3\<rparr> \<and>
   heap_read (sample_heap @ [[(''lights'', HRef 2)]]) (HRef 1) [''lights''] = Some (HRef 2) \<and>
   heap_read (sample_heap @ [[(''lights'', HRef 2)]]) (HRef 3) [''lights'', ''on''] =
     Some (HBool True) \<and>
   heap_read (heap_set (sample_heap @ [[(''lights'', HRef 2)]]) 2 ''on'' (HBool False))
     (HRef 3) [''lights'', ''on''] = Some (HBool False)"
  by (simp add: commit_state_def heap_object_assign_def heap_set_def sample_heap_def)

section \<open>The gate invariant\<close>

lemma gate_inv_iff:
  "gate_inv s \<longleftrightarrow>
     (\<forall>l \<in> set (listeners s). owner l < length (sockets s) \<and> authenticated (sockets s ! owner l)) \<and>
     (\<forall>sid \<in> set (nsp_connected s). sid < length (sockets s) \<and> authenticated (sockets s ! sid)) \<and>
     (\<forall>i < length (sockets s). timer (sockets s ! i) \<noteq> NotSet \<and>
        (\<not> authenticated (sockets s ! i) \<longrightarrow> sessions (sockets s ! i) = []) \<and>
        (authenticated (sockets s ! i) \<longrightarrow> timer (sockets s ! i) \<noteq> Armed))"
  by (simp add: gate_inv_def list_all_iff all_set_conv_all_nth)

lemma gate_view_outbox:
  "gate_view (upd_socket sid (\<lambda>c. c\<lparr>outbox := g c\<rparr>) s) = gate_view s"
  by (simp add: gate_view_def upd_socket_def map_update list_update_same_conv)

lemma gate_view_relay [simp]: "gate_view (relay l t p s) = gate_view s"
  by (simp add: relay_def socket_emit_def gate_view_outbox)

lemma gate_view_fold_relay [simp]: "gate_view (fold (\<lambda>l. relay l t p) ls s) = gate_view s"
  by (induction ls arbitrary: s) simp_all

lemma gate_view_published [simp]: "gate_view (s\<lparr>published := x\<rparr>) = gate_view s"
  by (simp add: gate_view_def)

lemma gate_view_state [simp]: "gate_view (s\<lparr>state := x\<rparr>) = gate_view s"
  by (simp add: gate_view_def)

lemma gate_view_emit [simp]: "gate_view (emitter_emit m t p s) = gate_view s"
  by (simp add: emitter_emit_def)

lemma gate_view_fold_emit [simp]:
  "gate_view (fold (\<lambda>k. emitter_emit m (f k) p) ks s) = gate_view s"
  by (induction ks arbitrary: s) simp_all

lemma gate_view_commit [simp]: "gate_view (commit_and_publish m K d new s) = gate_view s"
  by (simp add: commit_and_publish_def Let_def)

lemma gate_view_callAction: "callAction m k d s = Inr s' \<Longrightarrow> gate_view s' = gate_view s"
  by (auto simp: callAction_def split: jsval.splits option.splits sum.splits if_splits)

lemma gate_view_handle_action: "handle_action m p s = Inr s' \<Longrightarrow> gate_view s' = gate_view s"
  by (auto simp: handle_action_def split: sum.splits dest: gate_view_callAction)

lemma gate_view_repeat:
  "repeat_handler n (handle_action m p) s = Inr s' \<Longrightarrow> gate_view s' = gate_view s"
proof (induction n arbitrary: s)
  case 0
  then show ?case by simp
next
  case (Suc n)
  then show ?case
    by (auto split: sum.splits dest!: gate_view_handle_action)
qed

lemma gate_inv_view: "gate_view s' = gate_view s \<Longrightarrow> gate_inv s' = gate_inv s"
proof -
  assume v: "gate_view s' = gate_view s"
  have "gate_inv s = (case gate_view s of (ls, cs, ss) \<Rightarrow>
      list_all (\<lambda>l. owner l < length ss \<and> fst (ss ! owner l)) ls \<and>
      list_all (\<lambda>sid. sid < length ss \<and> fst (ss ! sid)) cs \<and>
      list_all (\<lambda>(a, t, se). t \<noteq> NotSet \<and> (\<not> a \<longrightarrow> se = []) \<and> (a \<longrightarrow> t \<noteq> Armed)) ss)" for s
    by (auto simp: gate_inv_def gate_view_def list_all_iff)
  with v show ?thesis by simp
qed

lemma gate_inv_init: "gate_inv (init_sys acts st)"
  by (simp add: gate_inv_def init_sys_def)

lemma gate_inv_connect: "gate_inv s \<Longrightarrow> gate_inv (connect s)"
  by (auto simp: gate_inv_iff connect_def Let_def forbidNamespaceConnections_def
      upd_socket_def nth_append nth_list_update less_Suc_eq)

lemma gate_inv_on_timeout: "gate_inv s \<Longrightarrow> gate_inv (on_timeout sid s)"
  by (auto simp: gate_inv_iff on_timeout_def socket_emit_def upd_socket_def nth_list_update)

lemma gate_inv_on_authenticate:
  "gate_inv s \<Longrightarrow> sid < length (sockets s) \<Longrightarrow> on_authenticate v sid msg s = Inr s' \<Longrightarrow>
   gate_inv s'"
  by (auto simp: gate_inv_iff on_authenticate_def Let_def socket_emit_def gateway_client_def
      restoreNamespaceConnection_def clearTimeout_def upd_socket_def nth_list_update
      split: sum.splits if_splits)

lemma handle_subscribe_inv:
  "gate_inv s \<and> sid < length (sockets s) \<and> authenticated (sockets s ! sid) \<Longrightarrow>
   gate_inv (handle_subscribe sid i ev s) \<and> sid < length (sockets (handle_subscribe sid i ev s)) \<and>
   authenticated (sockets (handle_subscribe sid i ev s) ! sid)"
  by (auto simp: gate_inv_iff handle_subscribe_def Let_def subscribe_def upd_socket_def
      nth_list_update)

lemma fold_subscribe_inv:
  "gate_inv s \<and> sid < length (sockets s) \<and> authenticated (sockets s ! sid) \<Longrightarrow>
   gate_inv (fold (\<lambda>i. handle_subscribe sid i ev) is s)"
proof (induction "is" arbitrary: s)
  case Nil
  then show ?case by simp
next
  case (Cons i "is")
  from handle_subscribe_inv [OF Cons.prems] show ?case
    by (simp add: Cons.IH)
qed

lemma handle_unsubscribe_inv: "gate_inv s \<Longrightarrow> gate_inv (handle_unsubscribe sid i ev s)"
  by (auto simp: gate_inv_iff handle_unsubscribe_def Let_def unsubscribe_def upd_socket_def
      nth_list_update split: option.splits)

lemma fold_unsubscribe_inv:
  "gate_inv s \<Longrightarrow> gate_inv (fold (\<lambda>i. handle_unsubscribe sid i ev) is s)"
  by (induction "is" arbitrary: s) (simp_all add: handle_unsubscribe_inv)

lemma unsubscribe_inv: "gate_inv s \<Longrightarrow> gate_inv (unsubscribe l s)"
  by (auto simp: gate_inv_iff unsubscribe_def)

lemma fold_unsub_inv: "gate_inv s \<Longrightarrow> gate_inv (fold unsubscribe ls s)"
  by (induction ls arbitrary: s) (simp_all add: unsubscribe_inv)

lemma handle_disconnect_inv: "gate_inv s \<Longrightarrow> gate_inv (handle_disconnect sid i s)"
proof -
  assume "gate_inv s"
  then have "gate_inv (fold unsubscribe (map snd (sessions (sockets s ! sid) ! i)) s)"
    by (rule fold_unsub_inv)
  then show ?thesis
    by (auto simp: gate_inv_iff handle_disconnect_def Let_def upd_socket_def nth_list_update)
qed

lemma fold_disconnect_inv: "gate_inv s \<Longrightarrow> gate_inv (fold (handle_disconnect sid) is s)"
  by (induction "is" arbitrary: s) (simp_all add: handle_disconnect_inv)

lemma gate_inv_close: "gate_inv s \<Longrightarrow> gate_inv (upd_socket sid (\<lambda>c. c\<lparr>closed := True\<rparr>) s)"
  by (auto simp: gate_inv_iff upd_socket_def nth_list_update)

lemma gate_inv_leave:
  "gate_inv s \<Longrightarrow> set ys \<subseteq> set (nsp_connected s) \<Longrightarrow>
   gate_inv (s\<lparr>nsp_sockets := xs, nsp_connected := ys\<rparr>)"
  by (auto simp: gate_inv_iff)

lemma gate_inv_socket_disconnect: "gate_inv s \<Longrightarrow> gate_inv (socket_disconnect sid s)"
  by (auto simp: socket_disconnect_def Let_def intro!: gate_inv_leave gate_inv_close
      fold_disconnect_inv)

lemma gate_inv_step: "gate_inv s \<Longrightarrow> step v m e s = Inr s' \<Longrightarrow> gate_inv s'"
proof (cases e)
  case Connect
  assume "gate_inv s" "step v m e s = Inr s'"
  with Connect show ?thesis by (auto simp: step_def gate_inv_connect)
next
  case (Client sid msg)
  assume inv: "gate_inv s" and st: "step v m e s = Inr s'"
  show ?thesis
  proof (cases "sid < length (sockets s) \<and> \<not> closed (sockets s ! sid)")
    case False
    with Client st inv show ?thesis by (auto simp: step_def)
  next
    case True
    show ?thesis
    proof (cases msg)
      case (Authenticate p)
      with Client True st have "on_authenticate v sid p s = Inr s'"
        by (simp add: step_def)
      with inv True show ?thesis
        by (blast intro: gate_inv_on_authenticate)
    next
      case (Action p)
      with Client True st have "gate_view s' = gate_view s"
        by (auto simp: step_def dest: gate_view_repeat)
      from gate_inv_view [OF this] inv show ?thesis by simp
    next
      case (Subscribe ev)
      show ?thesis
      proof (cases "authenticated (sockets s ! sid)")
        case True
        with Client \<open>sid < length (sockets s) \<and> \<not> closed (sockets s ! sid)\<close> Subscribe st
        have "s' = fold (\<lambda>i. handle_subscribe sid i ev) [0..<length (sessions (sockets s ! sid))] s"
          by (simp add: step_def)
        with inv True \<open>sid < length (sockets s) \<and> \<not> closed (sockets s ! sid)\<close>
        show ?thesis by (simp add: fold_subscribe_inv)
      next
        case False
        with inv True have "sessions (sockets s ! sid) = []"
          by (simp add: gate_inv_iff)
        with Client True Subscribe st inv show ?thesis by (auto simp: step_def)
      qed
    next
      case (Unsubscribe ev)
      with Client True st
      have "s' = fold (\<lambda>i. handle_unsubscribe sid i ev) [0..<length (sessions (sockets s ! sid))] s"
        by (simp add: step_def)
      with inv show ?thesis by (simp add: fold_unsubscribe_inv)
    qed
  qed
next
  case (TimerFires sid)
  assume "gate_inv s" "step v m e s = Inr s'"
  with TimerFires show ?thesis by (auto simp: step_def gate_inv_on_timeout)
next
  case (Ack sid)
  assume "gate_inv s" "step v m e s = Inr s'"
  with Ack show ?thesis by (auto simp: step_def gate_inv_socket_disconnect split: if_splits)
next
  case (Disconnect sid)
  assume "gate_inv s" "step v m e s = Inr s'"
  with Disconnect show ?thesis by (auto simp: step_def gate_inv_socket_disconnect)
next
  case (Register a x)
  assume "gate_inv s" "step v m e s = Inr s'"
  with Register show ?thesis by (auto simp: step_def registerReducer_def gate_inv_def)
next
  case (Dispatch k d)
  assume inv: "gate_inv s" and "step v m e s = Inr s'"
  with Dispatch have "gate_view s' = gate_view s"
    by (auto simp: step_def dest: gate_view_callAction)
  from gate_inv_view [OF this] inv show ?thesis by simp
next
  case (Publish t p)
  assume inv: "gate_inv s" and "step v m e s = Inr s'"
  with Publish have "gate_view s' = gate_view s"
    by (auto simp: step_def emitEvent_def)
  from gate_inv_view [OF this] inv show ?thesis by simp
qed

lemma gate_inv_run: "gate_inv s \<Longrightarrow> run v m evs s = Inr s' \<Longrightarrow> gate_inv s'"
proof (induction evs arbitrary: s)
  case Nil
  then show ?case by simp
next
  case (Cons e evs)
  then show ?case by (auto split: sum.splits dest: gate_inv_step)
qed

lemma relay_other: "owner l \<noteq> sid \<Longrightarrow> sockets (relay l t p s) ! sid = sockets s ! sid"
  by (simp add: relay_def socket_emit_def upd_socket_def)

lemma fold_relay_other:
  "\<forall>l \<in> set ls. owner l \<noteq> sid \<Longrightarrow> sockets (fold (\<lambda>l. relay l t p) ls s) ! sid = sockets s ! sid"
  by (induction ls arbitrary: s) (simp_all add: relay_other)

lemma emit_other:
  "\<forall>l \<in> set (listeners s). owner l \<noteq> sid \<Longrightarrow>
   sockets (emitter_emit m t p s) ! sid = sockets s ! sid"
  by (simp add: emitter_emit_def fold_relay_other)

lemma fold_emit_other:
  "\<forall>l \<in> set (listeners s). owner l \<noteq> sid \<Longrightarrow>
   sockets (fold (\<lambda>k. emitter_emit m (f k) p) ks s) ! sid = sockets s ! sid"
  by (induction ks arbitrary: s) (simp_all add: emit_other)

lemma commit_other:
  "\<forall>l \<in> set (listeners s). owner l \<noteq> sid \<Longrightarrow>
   sockets (commit_and_publish m K d new s) ! sid = sockets s ! sid"
  by (simp add: commit_and_publish_def Let_def emit_other fold_emit_other)

lemma callAction_other:
  "\<forall>l \<in> set (listeners s). owner l \<noteq> sid \<Longrightarrow> callAction m k d s = Inr s' \<Longrightarrow>
   sockets s' ! sid = sockets s ! sid"
  by (auto simp: callAction_def commit_other split: jsval.splits option.splits sum.splits if_splits)

lemma gate_inv_reachable: "run v m evs (init_sys acts st) = Inr s \<Longrightarrow> gate_inv s"
  using gate_inv_run [OF gate_inv_init] .


lemma handle_disconnect_length [simp]:
  "length (sockets (handle_disconnect sid i s)) = length (sockets s)"
proof -
  have "length (sockets (fold unsubscribe ls s)) = length (sockets s)" for ls
    by (induction ls arbitrary: s) (simp_all add: unsubscribe_def)
  then show ?thesis by (simp add: handle_disconnect_def Let_def)
qed

lemma fold_disconnect_length [simp]:
  "length (sockets (fold (handle_disconnect sid) is s)) = length (sockets s)"
  by (induction "is" arbitrary: s) simp_all

lemma socket_disconnect_closed:
  "sid < length (sockets s) \<Longrightarrow> closed (sockets (socket_disconnect sid s) ! sid)"
  by (simp add: socket_disconnect_def Let_def upd_socket_def)

lemma gateway_client_same:
  "sid < length (sockets s) \<Longrightarrow>
   sockets (gateway_client sid s) ! sid =
     (sockets s ! sid)\<lparr>sessions := sessions (sockets s ! sid) @ [[]],
       outbox := outbox (sockets s ! sid) @
         [Emit ''initial-state'' (JObj [(''state'', JObj (state s))]) False]\<rparr>"
  by (simp add: gateway_client_def socket_emit_same upd_socket_same getState_def)

lemma gateway_client_length [simp]:
  "length (sockets (gateway_client sid s)) = length (sockets s)"
  by (simp add: gateway_client_def)

lemma restore_sockets [simp]:
  "sockets (restoreNamespaceConnection sid s) = sockets s"
  by (simp add: restoreNamespaceConnection_def)

lemma on_authenticate_accept:
  assumes "sid < length (sockets s)" and "destructure msg ''token'' = Inr tok" and "v tok"
  shows "\<exists>s'. on_authenticate v sid msg s = Inr s' \<and>
           length (sockets s') = length (sockets s) \<and>
           sockets s' ! sid =
             (sockets s ! sid)\<lparr>authenticated := True,
               timer := clearTimeout (timer (sockets s ! sid)),
               sessions := sessions (sockets s ! sid) @ [[]],
               outbox := outbox (sockets s ! sid) @
                 [Emit ''initial-state'' (JObj [(''state'', JObj (state s))]) False,
                  Emit ''authenticated'' JUndefined False]\<rparr>"
  using assms
  by (simp add: on_authenticate_def Let_def socket_emit_same gateway_client_same upd_socket_same)

lemma on_authenticate_reject:
  assumes "sid < length (sockets s)" and "destructure msg ''token'' = Inr tok" and "\<not> v tok"
  shows "\<exists>s'. on_authenticate v sid msg s = Inr s' \<and>
           length (sockets s') = length (sockets s) \<and>
           sockets s' ! sid =
             (sockets s ! sid)\<lparr>timer := clearTimeout (timer (sockets s ! sid)),
               outbox := outbox (sockets s ! sid) @
                 [Emit ''unauthorized'' (JObj [(''type'', JStr ''INVALID_TOKEN'')]) True]\<rparr>"
  using assms
  by (simp add: on_authenticate_def Let_def socket_emit_same upd_socket_same)

lemma on_timeout_idle: "sid < length (sockets s) \<Longrightarrow> timer (sockets s ! sid) \<noteq> Armed \<Longrightarrow> on_timeout sid s = s"
  by (simp add: on_timeout_def)

lemma clearTimeout_not_armed [simp]: "clearTimeout t \<noteq> Armed"
  by (simp add: clearTimeout_def)


section \<open>The auth gate and the gateway\<close>

lemmas eval_defs = step_def connect_def on_authenticate_def on_timeout_def
  socket_disconnect_def forbidNamespaceConnections_def restoreNamespaceConnection_def
  gateway_client_def socket_emit_def upd_socket_def clearTimeout_def handle_subscribe_def
  subscribe_def init_sys_def token_ok_def Let_def getState_def get_prop_def

lemma sample_run:
  "run token_ok (=) sample_events (init_sys sample_actions [(''count'', JNum 0)]) =
     Inr sample_sys"
  by (simp add: sample_events_def sample_sys_def eval_defs)

lemma sample_connect:
  "run token_ok (=) [Connect] (init_sys sample_actions [(''count'', JNum 0)]) =
     Inr (connect sample_init)"
  "length (sockets (connect sample_init)) = 1"
  "sockets (connect sample_init) ! 0 =
     \<lparr>authenticated = False, timer = Armed, sessions = [], outbox = [], closed = False\<rparr>"
  "state (connect sample_init) = [(''count'', JNum 0)]"
  by (simp_all add: sample_init_def eval_defs)

text \<open>
  C1. In every state the process can reach, a socket that is not authenticated (its
  gate is pending) gets nothing from a publish: neither \<open>emitEvent\<close> nor a dispatch
  adds to what was emitted to it. No listener on the emitter relays to it, it is not in
  the namespace's \<open>connected\<close> table (the recipients of socket.io broadcasts), and a
  subscribe message it sends before authenticating registers nothing: the gateway's
  handlers are installed only when it authenticates.
\<close>

theorem pending_socket_gets_no_publish:
  assumes "run v m evs (init_sys acts st) = Inr s"
    and "sid < length (sockets s)" and "\<not> authenticated (sockets s ! sid)"
  shows "outbox (sockets (emitEvent m t p s) ! sid) = outbox (sockets s ! sid) \<and>
         (\<forall>s'. callAction m k d s = Inr s' \<longrightarrow>
             outbox (sockets s' ! sid) = outbox (sockets s ! sid)) \<and>
         list_all (\<lambda>l. owner l \<noteq> sid) (listeners s) \<and>
         sid \<notin> set (nsp_connected s) \<and>
         step v m (Client sid (Subscribe ev)) s = Inr s"
proof -
  from assms(1) have inv: "gate_inv s" by (rule gate_inv_reachable)
  from inv assms(3) have own: "\<forall>l \<in> set (listeners s). owner l \<noteq> sid"
    by (auto simp: gate_inv_iff)
  from inv assms(3) have conn: "sid \<notin> set (nsp_connected s)"
    by (auto simp: gate_inv_iff)
  from inv assms(2,3) have "sessions (sockets s ! sid) = []"
    by (simp add: gate_inv_iff)
  then have sub: "step v m (Client sid (Subscribe ev)) s = Inr s"
    by (simp add: step_def)
  from own have e: "sockets (emitEvent m t p s) ! sid = sockets s ! sid"
    by (simp add: emitEvent_def emit_other)
  from own have c: "\<forall>s'. callAction m k d s = Inr s' \<longrightarrow> sockets s' ! sid = sockets s ! sid"
    by (blast intro: callAction_other)
  from own conn sub e c show ?thesis
    by (simp add: list_all_iff)
qed

theorem pending_socket_gets_no_publish_witness:
  "run token_ok (=) sample_events (init_sys sample_actions [(''count'', JNum 0)]) =
     Inr sample_sys \<and>
   0 < length (sockets sample_sys) \<and>
   \<not> authenticated (sockets sample_sys ! 0) \<and>
   outbox (sockets (emitEvent (=) ''ping'' JNull sample_sys) ! 0) =
     outbox (sockets sample_sys ! 0) \<and>
   outbox (sockets (emitEvent (=) ''ping'' JNull sample_sys) ! 1) =
     outbox (sockets sample_sys ! 1) @
     [Emit ''all-events'' (JObj [(''event'', JStr ''ping''), (''data'', JNull)]) False] \<and>
   0 \<notin> set (nsp_connected sample_sys) \<and>
   step token_ok (=) (Client 0 (Subscribe ''*'')) sample_sys = Inr sample_sys"
proof -
  have l: "0 < length (sockets sample_sys)"
    by (simp add: sample_sys_def)
  have a: "\<not> authenticated (sockets sample_sys ! 0)"
    by (simp add: sample_sys_def)
  have o: "outbox (sockets (emitEvent (=) ''ping'' JNull sample_sys) ! 1) =
     outbox (sockets sample_sys ! 1) @
     [Emit ''all-events'' (JObj [(''event'', JStr ''ping''), (''data'', JNull)]) False]"
    by (simp add: sample_sys_def emitEvent_def emitter_emit_def relay_def socket_emit_def
        upd_socket_def)
  from pending_socket_gets_no_publish [OF sample_run l a, where t = "''ping''" and p = JNull
      and k = "JStr ''noop''" and d = JNull and ev = "''*''"] sample_run l a o
  show ?thesis by simp
qed

text \<open>
  C7. The timeout is to be cancelled only on a successful authentication, must not fire
  once the connection has left the pending phase, and a presentation that fails
  verification must not leave the gate open. The code does not keep this: the handler
  of \<open>authenticate\<close> calls \<open>clearTimeout\<close> before the token is verified, and the
  failure path disconnects only from the acknowledgement callback of the
  \<open>unauthorized\<close> event. After a connect and one presentation of a token that does
  not verify, with no acknowledgement from the client, the socket is open and not
  authenticated and its timer is cancelled, so the timeout does nothing any more and
  nothing closes the socket. The timer is also not cancelled by a disconnect: after a
  connect and a disconnect it still fires, on the closed socket.
\<close>

theorem failed_authentication_leaves_gate_open:
  "socket_after
     (run token_ok (=) [Connect, Client 0 (Authenticate (JObj [(''token'', JStr ''bad'')]))]
        sample_init) 0 =
   Some \<lparr>authenticated = False, timer = Cleared, sessions = [],
         outbox = [Emit ''unauthorized'' (JObj [(''type'', JStr ''INVALID_TOKEN'')]) True],
         closed = False\<rparr> \<and>
   socket_after
     (run token_ok (=)
        [Connect, Client 0 (Authenticate (JObj [(''token'', JStr ''bad'')])), TimerFires 0]
        sample_init) 0 =
   Some \<lparr>authenticated = False, timer = Cleared, sessions = [],
         outbox = [Emit ''unauthorized'' (JObj [(''type'', JStr ''INVALID_TOKEN'')]) True],
         closed = False\<rparr> \<and>
   socket_after (run token_ok (=) [Connect, Disconnect 0, TimerFires 0] sample_init) 0 =
   Some \<lparr>authenticated = False, timer = Fired, sessions = [],
         outbox = [Emit ''unauthorized'' (JObj [(''type'', JStr ''TIMEOUT'')]) True],
         closed = True\<rparr>"
  by (simp add: sample_init_def socket_after_def eval_defs)

text \<open>
  C8, as the code has it. The \<open>initial-state\<close> message is sent by the callback that
  \<open>socketAuth\<close> runs on a successful authentication, not at the transport connect.
  A connect emits nothing to the new socket, which is not authenticated; a credential
  presentation that verifies emits \<open>initial-state\<close> with the current snapshot
  (\<open>getState()\<close>), followed by \<open>authenticated\<close>.
\<close>

theorem initial_state_sent_on_authentication:
  "outbox (sockets (connect s) ! length (sockets s)) = [] \<and>
   \<not> authenticated (sockets (connect s) ! length (sockets s)) \<and>
   (sid < length (sockets s) \<longrightarrow> destructure msg ''token'' = Inr tok \<longrightarrow> v tok \<longrightarrow>
      (\<exists>s'. on_authenticate v sid msg s = Inr s' \<and>
         authenticated (sockets s' ! sid) \<and>
         outbox (sockets s' ! sid) =
           outbox (sockets s ! sid) @
           [Emit ''initial-state'' (JObj [(''state'', JObj (getState s))]) False,
            Emit ''authenticated'' JUndefined False]))"
proof (intro conjI impI)
  show "outbox (sockets (connect s) ! length (sockets s)) = []"
    by (simp add: connect_def Let_def forbidNamespaceConnections_def upd_socket_def)
  show "\<not> authenticated (sockets (connect s) ! length (sockets s))"
    by (simp add: connect_def Let_def forbidNamespaceConnections_def upd_socket_def)
next
  assume a: "sid < length (sockets s)" "destructure msg ''token'' = Inr tok" "v tok"
  from on_authenticate_accept [where v = v, OF a] show "\<exists>s'. on_authenticate v sid msg s = Inr s' \<and>
         authenticated (sockets s' ! sid) \<and>
         outbox (sockets s' ! sid) =
           outbox (sockets s ! sid) @
           [Emit ''initial-state'' (JObj [(''state'', JObj (getState s))]) False,
            Emit ''authenticated'' JUndefined False]"
    by (auto simp: getState_def)
qed

theorem initial_state_sent_on_authentication_witness:
  "0 < length (sockets (connect sample_init)) \<and>
   destructure (JObj [(''token'', JStr ''good'')]) ''token'' = Inr (JStr ''good'') \<and>
   token_ok (JStr ''good'') \<and>
   outbox (sockets (connect sample_init) ! length (sockets sample_init)) = [] \<and>
   (\<exists>s'. on_authenticate token_ok 0 (JObj [(''token'', JStr ''good'')]) (connect sample_init) =
           Inr s' \<and>
      authenticated (sockets s' ! 0) \<and>
      outbox (sockets s' ! 0) =
        [Emit ''initial-state'' (JObj [(''state'', JObj [(''count'', JNum 0)])]) False,
         Emit ''authenticated'' JUndefined False])"
proof -
  have l: "0 < length (sockets (connect sample_init))"
    by (simp add: sample_connect)
  have d: "destructure (JObj [(''token'', JStr ''good'')]) ''token'' = Inr (JStr ''good'')"
    by (simp add: get_prop_def)
  have t: "token_ok (JStr ''good'')"
    by (simp add: token_ok_def)
  from initial_state_sent_on_authentication [where s = sample_init]
  have 1: "outbox (sockets (connect sample_init) ! length (sockets sample_init)) = []"
    by simp
  from initial_state_sent_on_authentication [where s = "connect sample_init" and sid = 0
      and msg = "JObj [(''token'', JStr ''good'')]" and tok = "JStr ''good''" and v = token_ok]
    l d t
  have 2: "\<exists>s'. on_authenticate token_ok 0 (JObj [(''token'', JStr ''good'')])
           (connect sample_init) = Inr s' \<and>
      authenticated (sockets s' ! 0) \<and>
      outbox (sockets s' ! 0) =
        [Emit ''initial-state'' (JObj [(''state'', JObj [(''count'', JNum 0)])]) False,
         Emit ''authenticated'' JUndefined False]"
    by (auto simp: sample_connect getState_def)
  from 1 2 l d t show ?thesis by simp
qed

text \<open>
  The claim as the spec states it fails: after the transport connect alone nothing has
  been emitted to the socket; in particular no \<open>initial-state\<close>.
\<close>

theorem no_initial_state_on_connect_counterexample:
  "socket_after (run token_ok (=) [Connect] sample_init) 0 =
   Some \<lparr>authenticated = False, timer = Armed, sessions = [], outbox = [], closed = False\<rparr>"
  by (simp add: sample_init_def socket_after_def eval_defs)

end
